theory Spec2Isabelle
  imports Main
begin

section \<open>Python strings\<close>

text \<open>
  A Python \<open>str\<close> is modelled as a \<^typ>\<open>string\<close>, one \<^typ>\<open>char\<close> per code point
  (code points below 256). The three characters that cannot be written inside a
  literal get a name.
\<close>

abbreviation dquote :: char where "dquote \<equiv> CHR 0x22"
abbreviation backslash :: char where "backslash \<equiv> CHR 0x5C"
abbreviation newline :: char where "newline \<equiv> CHR 0x0A"

text \<open>\<open>s.startswith(p)\<close>.\<close>

definition startswith :: "string \<Rightarrow> string \<Rightarrow> bool" where
  "startswith s p = (take (length p) s = p)"

text \<open>
  \<open>s.strip(chars)\<close>: \<open>chars\<close> is a set of characters; every leading and every trailing
  character of \<open>s\<close> that belongs to it is removed.
\<close>

definition str_strip :: "string \<Rightarrow> string \<Rightarrow> string" where
  "str_strip chars s =
     rev (dropWhile (\<lambda>c. c \<in> set chars) (rev (dropWhile (\<lambda>c. c \<in> set chars) s)))"

text \<open>
  \<open>s.split(sep)\<close>: the pieces of \<open>s\<close> between the occurrences of \<open>sep\<close>, found from
  left to right without overlap. \<open>split_from sep acc s\<close> scans \<open>s\<close> with the
  current piece \<open>acc\<close> kept in reverse. Python raises \<open>ValueError\<close> for an empty
  separator; the program only splits on the literals \<open>'\n'\<close>, \<open>'='\<close> and \<open>'=<'\<close>, and
  the model leaves the string whole there.
\<close>

fun split_from :: "string \<Rightarrow> string \<Rightarrow> string \<Rightarrow> string list" where
  "split_from sep acc [] = [rev acc]"
| "split_from [] acc (c # cs) = [rev acc @ c # cs]"
| "split_from (d # ds) acc (c # cs) =
     (if c = d \<and> take (length ds) cs = ds
      then rev acc # split_from (d # ds) [] (drop (length ds) cs)
      else split_from (d # ds) (c # acc) cs)"

definition str_split :: "string \<Rightarrow> string \<Rightarrow> string list" where
  "str_split sep s = split_from sep [] s"

text \<open>\<open>sub in s\<close>: \<open>sub\<close> occurs in \<open>s\<close>.\<close>

fun str_contains :: "string \<Rightarrow> string \<Rightarrow> bool" where
  "str_contains [] sub = (sub = [])"
| "str_contains (c # cs) sub = (startswith (c # cs) sub \<or> str_contains cs sub)"

section \<open>The regular expression of \<open>multi_key_parse\<close>\<close>

text \<open>
  \<open>re.findall(r'(?:[^\s,"]|"(?:\\.|[^"])*")+', line)\<close>, as Python's backtracking
  matcher runs it.

  \<open>\s\<close> on a \<open>str\<close> pattern is Unicode white space: below 256 these are the code
  points 9 to 13, 28 to 32, 133 and 160.
\<close>

definition isspace :: "char \<Rightarrow> bool" where
  "isspace c =
     (let n = (of_char c :: nat)
      in (9 \<le> n \<and> n \<le> 13) \<or> (28 \<le> n \<and> n \<le> 32) \<or> n = 133 \<or> n = 160)"

text \<open>The character class \<open>[^\s,"]\<close>.\<close>

definition plain_char :: "char \<Rightarrow> bool" where
  "plain_char c = (\<not> isspace c \<and> c \<noteq> CHR '','' \<and> c \<noteq> dquote)"

text \<open>
  \<open>(?:\\.|[^"])*"\<close> matched at the start of the argument, that is, just after an
  opening quote: the result is the text matched, closing quote included, and the
  rest of the input. The loop is greedy and its body is tried in the order of the
  alternation: on a backslash followed by a character other than a newline, first
  \<open>\\.\<close> (two characters) and the rest of the match after it; if that finds no
  closing quote, \<open>[^"]\<close> (the backslash alone); a quote ends the loop and is the
  closing quote.
\<close>

fun quoted_body :: "string \<Rightarrow> (string \<times> string) option" where
  "quoted_body [] = None"
| "quoted_body (c # cs) =
     (if c = dquote then Some ([c], cs)
      else
        (case (if c = backslash
               then (case cs of
                       [] \<Rightarrow> None
                     | d # ds \<Rightarrow>
                         if d = newline then None
                         else map_option (\<lambda>(m, r). (c # d # m, r)) (quoted_body ds))
               else None) of
           Some res \<Rightarrow> Some res
         | None \<Rightarrow> map_option (\<lambda>(m, r). (c # m, r)) (quoted_body cs)))"

lemma quoted_body_append: "quoted_body s = Some (m, r) \<Longrightarrow> s = m @ r"
proof (induction s arbitrary: m r rule: quoted_body.induct)
  case 1
  then show ?case by simp
next
  case (2 c cs)
  show ?case
  proof (cases "c = dquote")
    case True
    with "2.prems" show ?thesis by simp
  next
    case notq: False
    show ?thesis
    proof (cases "c = backslash \<and> cs \<noteq> [] \<and> hd cs \<noteq> newline \<and> quoted_body (tl cs) \<noteq> None")
      case True
      then obtain d ds where cs: "cs = d # ds" and d: "d \<noteq> newline" and c: "c = backslash"
        and "quoted_body ds \<noteq> None"
        by (cases cs) auto
      then obtain m' r' where q: "quoted_body ds = Some (m', r')"
        by auto
      with "2.prems" notq cs d c have "m = c # d # m'" "r = r'"
        by simp_all
      moreover have "ds = m' @ r'"
        using "2.IH"(1) [OF notq c cs d q] .
      ultimately show ?thesis
        using cs by simp
    next
      case False
      then have e: "(if c = backslash
               then (case cs of
                       [] \<Rightarrow> None
                     | d # ds \<Rightarrow>
                         if d = newline then None
                         else map_option (\<lambda>(m, r). (c # d # m, r)) (quoted_body ds))
               else None) = None"
        by (cases cs; cases "quoted_body (tl cs)") auto
      with "2.prems" notq obtain m' where q: "quoted_body cs = Some (m', r)" and m: "m = c # m'"
        by (cases "quoted_body cs") auto
      have "cs = m' @ r"
        using "2.IH"(2) [OF notq e q] .
      with m show ?thesis by simp
    qed
  qed
qed

text \<open>
  \<open>(?:[^\s,"]|"(?:\\.|[^"])*")+\<close> matched at the start of the argument: the text
  matched and the rest of the input; an empty text means that there is no match
  here. The loop is greedy and nothing follows it in the pattern, so it takes every
  iteration that matches and never gives one back.
\<close>

function match_token :: "string \<Rightarrow> string \<times> string" where
  "match_token [] = ([], [])"
| "match_token (c # cs) =
     (if plain_char c
      then (case match_token cs of (m, r) \<Rightarrow> (c # m, r))
      else if c = dquote
      then (case quoted_body cs of
              None \<Rightarrow> ([], c # cs)
            | Some (q, r) \<Rightarrow> (case match_token r of (m, r') \<Rightarrow> (c # q @ m, r')))
      else ([], c # cs))"
  by pat_completeness auto
termination
proof (relation "measure length")
  fix c :: char and cs q r :: string and x
  assume "quoted_body cs = Some x" and "(q, r) = x"
  then have "cs = q @ r"
    by (simp add: quoted_body_append)
  then show "(r, c # cs) \<in> measure length"
    by simp
qed simp_all

lemma match_token_append: "match_token s = (m, r) \<Longrightarrow> s = m @ r"
proof (induction s arbitrary: m r rule: match_token.induct)
  case 1
  then show ?case by simp
next
  case (2 c cs)
  show ?case
  proof (cases "plain_char c")
    case True
    obtain m' r' where t: "match_token cs = (m', r')"
      by (cases "match_token cs")
    with "2.prems" True have "m = c # m'" "r = r'"
      by simp_all
    moreover have "cs = m' @ r'"
      using "2.IH"(1) [OF True t] .
    ultimately show ?thesis by simp
  next
    case np: False
    show ?thesis
    proof (cases "c = dquote")
      case nq: False
      with np "2.prems" show ?thesis by simp
    next
      case q: True
      show ?thesis
      proof (cases "quoted_body cs")
        case None
        with np q "2.prems" show ?thesis by simp
      next
        case (Some x)
        obtain b r1 where x: "x = (b, r1)"
          by (cases x)
        obtain m' r' where t: "match_token r1 = (m', r')"
          by (cases "match_token r1")
        have "cs = b @ r1"
          using Some x by (simp add: quoted_body_append)
        moreover have "r1 = m' @ r'"
          using "2.IH"(2) [OF np q Some x [symmetric] t] .
        moreover have "m = c # b @ m'" "r = r'"
          using "2.prems" np q Some x t by simp_all
        ultimately show ?thesis by simp
      qed
    qed
  qed
qed

text \<open>
  \<open>findall\<close>: the matches from left to right; after a match the search goes on
  where it ended, and where nothing matches it moves one character on.
\<close>

function findall_tokens :: "string \<Rightarrow> string list" where
  "findall_tokens [] = []"
| "findall_tokens (c # cs) =
     (case match_token (c # cs) of
        ([], _) \<Rightarrow> findall_tokens cs
      | (m # ms, r) \<Rightarrow> (m # ms) # findall_tokens r)"
  by pat_completeness auto
termination
proof (relation "measure length")
  fix c :: char and cs x y x22 :: string and x21 :: char
  assume "(x, y) = match_token (c # cs)" and "x = x21 # x22"
  then have "c # cs = (x21 # x22) @ y"
    using match_token_append [of "c # cs" "x21 # x22" y] by simp
  then have "length (c # cs) = length (x21 # x22) + length y"
    by (metis length_append)
  then show "(y, c # cs) \<in> measure length"
    by simp
qed (simp_all del: match_token.simps)

section \<open>The class \<open>Vcf2Excel\<close>\<close>

text \<open>The exceptions that leave \<open>parse_headers\<close>.\<close>

datatype error = ValueError string | IndexError | NotImplementedError

subsection \<open>\<open>multi_key_parse\<close>\<close>

text \<open>
  The dictionary \<open>new_rec\<close> that \<open>multi_key_parse\<close> returns: the list of its items
  in insertion order; a value is a string or \<open>np.nan\<close> (\<open>None\<close>).
\<close>

type_synonym pydict = "(string \<times> string option) list"

text \<open>
  \<open>{pair[0]: pair[1] for pair in keyvals}\<close>: the pairs are entered from left to
  right, a later key replaces an earlier one, pieces after the second are not
  looked at, and a pair with one piece raises \<open>IndexError\<close>.
\<close>

fun vals_d :: "(string \<rightharpoonup> string) \<Rightarrow> string list list \<Rightarrow> error + (string \<rightharpoonup> string)" where
  "vals_d d [] = Inr d"
| "vals_d d ([] # keyvals) = Inl IndexError"
| "vals_d d ([k] # keyvals) = Inl IndexError"
| "vals_d d ((k # v # extra) # keyvals) = vals_d (d(k \<mapsto> v)) keyvals"

text \<open>
  \<open>line.split('=<')[1][:-1]\<close> raises \<open>IndexError\<close> when \<open>line\<close> has no \<open>=<\<close>;
  \<open>[:-1]\<close> drops the last character, if there is one. The \<open>try\<close> of the source
  turns a missing key into \<open>np.nan\<close>.
\<close>

definition multi_key_parse :: "string \<Rightarrow> string list \<Rightarrow> error + pydict" where
  "multi_key_parse line fields =
     (case str_split ''=<'' line of
        [] \<Rightarrow> Inl IndexError
      | [piece] \<Rightarrow> Inl IndexError
      | piece # inner # extra \<Rightarrow>
          (case vals_d Map.empty (map (str_split ''='') (findall_tokens (butlast inner))) of
             Inl e \<Rightarrow> Inl e
           | Inr d \<Rightarrow> Inr (map (\<lambda>field. (field, d field)) fields)))"

subsection \<open>The tables\<close>

text \<open>
  A \<open>pandas.DataFrame\<close> of this program: its column names and its rows, oldest
  first. A row is the dictionary that was appended.
  \<open>df.append(d, ignore_index=True)\<close> returns the frame with \<open>d\<close> as a new last row;
  every dictionary the program appends has exactly the frame's columns as its keys.
\<close>

record dataframe =
  columns :: "string list"
  rows :: "pydict list"

definition DataFrame :: "string list \<Rightarrow> dataframe" where
  "DataFrame cols = \<lparr>columns = cols, rows = []\<rparr>"

definition df_append :: "dataframe \<Rightarrow> pydict \<Rightarrow> dataframe" where
  "df_append df d = df\<lparr>rows := rows df @ [d]\<rparr>"

text \<open>The eight tables of the object; the tables \<open>__init__\<close> creates.\<close>

record tables =
  md_keypairs :: dataframe
  md_info :: dataframe
  md_filter :: dataframe
  md_format :: dataframe
  md_alt :: dataframe
  md_contig :: dataframe
  md_sample :: dataframe
  md_pedigree :: dataframe

definition init_tables :: tables where
  "init_tables =
     \<lparr>md_keypairs = DataFrame [''Name'', ''Value''],
      md_info = DataFrame [''ID'', ''Number'', ''Type'', ''Description'', ''Source'', ''Version''],
      md_filter = DataFrame [''ID'', ''Description''],
      md_format = DataFrame [''ID'', ''Number'', ''Type'', ''Description''],
      md_alt = DataFrame [''ID'', ''Description''],
      md_contig = DataFrame [''ID'', ''URL''],
      md_sample = DataFrame [''ID'', ''Genomes'', ''Mixture'', ''Description''],
      md_pedigree = DataFrame [''Name'', ''Genome'']\<rparr>"

subsection \<open>\<open>parse_keypair\<close>, \<open>parse_pedigree\<close>\<close>

text \<open>
  \<open>key, value = line.split('=')\<close> raises \<open>ValueError\<close> unless there are exactly two
  pieces.
\<close>

definition parse_keypair :: "tables \<Rightarrow> string \<Rightarrow> error + tables" where
  "parse_keypair self line =
     (case str_split ''='' line of
        [key, val] \<Rightarrow>
          Inr (self\<lparr>md_keypairs :=
                 df_append (md_keypairs self) [(''Name'', Some key), (''Value'', Some val)]\<rparr>)
      | [piece] \<Rightarrow> Inl (ValueError ''not enough values to unpack (expected 2, got 1)'')
      | _ \<Rightarrow> Inl (ValueError ''too many values to unpack (expected 2)''))"

definition parse_pedigree :: "tables \<Rightarrow> string \<Rightarrow> error + tables" where
  "parse_pedigree self line = Inl NotImplementedError"

subsection \<open>\<open>parse_headers\<close>\<close>

text \<open>
  The chain of \<open>if\<close>/\<open>elif\<close> in the body of the loop, on the line that
  \<open>strip\<close> has returned.
\<close>

definition parse_header_line :: "tables \<Rightarrow> string \<Rightarrow> error + tables" where
  "parse_header_line self line =
     (if startswith line ''INFO'' then
        (case multi_key_parse line (columns (md_info self)) of
           Inl e \<Rightarrow> Inl e
         | Inr r \<Rightarrow> Inr (self\<lparr>md_info := df_append (md_info self) r\<rparr>))
      else if startswith line ''FILTER'' then
        (case multi_key_parse line (columns (md_filter self)) of
           Inl e \<Rightarrow> Inl e
         | Inr r \<Rightarrow> Inr (self\<lparr>md_filter := df_append (md_filter self) r\<rparr>))
      else if startswith line ''FORMAT'' then
        (case multi_key_parse line (columns (md_format self)) of
           Inl e \<Rightarrow> Inl e
         | Inr r \<Rightarrow> Inr (self\<lparr>md_format := df_append (md_format self) r\<rparr>))
      else if startswith line ''ALT'' then
        (case multi_key_parse line (columns (md_alt self)) of
           Inl e \<Rightarrow> Inl e
         | Inr r \<Rightarrow> Inr (self\<lparr>md_alt := df_append (md_alt self) r\<rparr>))
      else if startswith line ''contig'' then
        (case multi_key_parse line (columns (md_contig self)) of
           Inl e \<Rightarrow> Inl e
         | Inr r \<Rightarrow> Inr (self\<lparr>md_contig := df_append (md_contig self) r\<rparr>))
      else if startswith line ''SAMPLE'' then
        (case multi_key_parse line (columns (md_sample self)) of
           Inl e \<Rightarrow> Inl e
         | Inr r \<Rightarrow> Inr (self\<lparr>md_sample := df_append (md_sample self) r\<rparr>))
      else if startswith line ''PEDIGREE'' then parse_pedigree self line
      else if length (str_split ''='' line) = 2 then parse_keypair self line
      else Inl (ValueError (''Invalid header line: '' @ line)))"

text \<open>
  The loop over the lines: \<open>return\<close> at the first line whose first two characters
  are not \<open>##\<close>, an exception of the body ends the loop with that exception.
\<close>

fun parse_lines :: "tables \<Rightarrow> string list \<Rightarrow> error + tables" where
  "parse_lines self [] = Inr self"
| "parse_lines self (line # lines) =
     (if take 2 line \<noteq> ''##'' then Inr self
      else
        (case parse_header_line self (str_strip ''##'' line) of
           Inl e \<Rightarrow> Inl e
         | Inr self' \<Rightarrow> parse_lines self' lines))"

text \<open>\<open>raw_header\<close> is the string that \<open>self.vcf.raw_header\<close> gives.\<close>

definition parse_headers :: "tables \<Rightarrow> string \<Rightarrow> error + tables" where
  "parse_headers self raw_header = parse_lines self (str_split [newline] raw_header)"

subsection \<open>\<open>write_spreadsheet\<close>\<close>

text \<open>
  \<open>df.to_excel(writer, sheet_name=...)\<close> with the defaults of pandas
  (\<open>header=True\<close>, \<open>index=True\<close>, \<open>na_rep=''\<close>): the grid of what pandas hands to the
  \<open>write\<close> of xlsxwriter, cell by cell. The first row has nothing for the unnamed
  index and then the column names; the row of a record has its index, counted from
  0, and then one value per column, found in the record by the name of the column
  (\<open>np.nan\<close> when the record has no such key).

  For \<open>np.nan\<close> pandas hands over \<open>na_rep\<close>, the empty string, and \<open>write\<close> leaves the
  cell of an empty string empty: \<open>Blank\<close> is a cell that stays empty. \<open>Written v\<close>
  is the call of \<open>write\<close> with the non-empty string \<open>v\<close>; what xlsxwriter stores for
  it (the text \<open>v\<close>, or a hyperlink or a formula when \<open>v\<close> begins like one) is not
  modelled. \<open>Index i\<close> is the number \<open>i\<close>.
\<close>

datatype cell = Blank | Written string | Index nat

definition write_value :: "string option \<Rightarrow> cell" where
  "write_value v = (case v of None \<Rightarrow> Blank | Some s \<Rightarrow> if s = [] then Blank else Written s)"

definition render_cell :: "pydict \<Rightarrow> string \<Rightarrow> cell" where
  "render_cell r col = (case map_of r col of None \<Rightarrow> Blank | Some v \<Rightarrow> write_value v)"

definition to_excel :: "dataframe \<Rightarrow> cell list list" where
  "to_excel df =
     (Blank # map (\<lambda>col. write_value (Some col)) (columns df)) #
     map (\<lambda>(i, r). Index i # map (render_cell r) (columns df)) (enumerate 0 (rows df))"

text \<open>The workbook: the sheets in the order in which they are written.\<close>

definition write_spreadsheet :: "tables \<Rightarrow> (string \<times> cell list list) list" where
  "write_spreadsheet self =
     [(''File Metadata'', to_excel (md_keypairs self)),
      (''INFO'', to_excel (md_info self)),
      (''FILTER'', to_excel (md_filter self)),
      (''FORMAT'', to_excel (md_format self)),
      (''ALT'', to_excel (md_alt self)),
      (''contig'', to_excel (md_contig self)),
      (''SAMPLE'', to_excel (md_sample self)),
      (''PEDIGREE'', to_excel (md_pedigree self))]"

text \<open>
  \<open>__init__\<close>: the tables are created, the header is parsed, the workbook is
  written. An exception of \<open>parse_headers\<close> leaves \<open>__init__\<close> before
  \<open>write_spreadsheet\<close> is called, so that no workbook exists then.
\<close>

definition Vcf2Excel_init :: "string \<Rightarrow> error + (string \<times> cell list list) list" where
  "Vcf2Excel_init raw_header =
     (case parse_headers init_tables raw_header of
        Inl e \<Rightarrow> Inl e
      | Inr self \<Rightarrow> Inr (write_spreadsheet self))"

section \<open>Notions of the specification\<close>

text \<open>
  The classification as the specification words it: the prefix of the line is tested
  against an ordered list of prefixes, the first that matches gives the category; a
  line that matches none is a key/value pair when splitting it on \<open>=\<close> gives
  exactly two pieces, and invalid otherwise.
\<close>

datatype category = INFO | FILTER | FORMAT | ALT | CONTIG | SAMPLE | PEDIGREE | KEYPAIR

definition category_prefixes :: "(string \<times> category) list" where
  "category_prefixes =
     [(''INFO'', INFO), (''FILTER'', FILTER), (''FORMAT'', FORMAT), (''ALT'', ALT),
      (''contig'', CONTIG), (''SAMPLE'', SAMPLE), (''PEDIGREE'', PEDIGREE)]"

definition classify :: "string \<Rightarrow> category option" where
  "classify line =
     (case find (\<lambda>(p, c). startswith line p) category_prefixes of
        Some (p, c) \<Rightarrow> Some c
      | None \<Rightarrow> if length (str_split ''='' line) = 2 then Some KEYPAIR else None)"

text \<open>The table of a category.\<close>

fun table_of :: "category \<Rightarrow> tables \<Rightarrow> dataframe" where
  "table_of INFO = md_info"
| "table_of FILTER = md_filter"
| "table_of FORMAT = md_format"
| "table_of ALT = md_alt"
| "table_of CONTIG = md_contig"
| "table_of SAMPLE = md_sample"
| "table_of PEDIGREE = md_pedigree"
| "table_of KEYPAIR = md_keypairs"

fun table_update :: "category \<Rightarrow> (dataframe \<Rightarrow> dataframe) \<Rightarrow> tables \<Rightarrow> tables" where
  "table_update INFO = md_info_update"
| "table_update FILTER = md_filter_update"
| "table_update FORMAT = md_format_update"
| "table_update ALT = md_alt_update"
| "table_update CONTIG = md_contig_update"
| "table_update SAMPLE = md_sample_update"
| "table_update PEDIGREE = md_pedigree_update"
| "table_update KEYPAIR = md_keypairs_update"

text \<open>The record of a key/value line: the text before its \<open>=\<close> and the text after it.\<close>

definition keypair_record :: "string \<Rightarrow> pydict" where
  "keypair_record line =
     [(''Name'', Some (takeWhile (\<lambda>c. c \<noteq> CHR ''='') line)),
      (''Value'', Some (tl (dropWhile (\<lambda>c. c \<noteq> CHR ''='') line)))]"

text \<open>What is done with a line of each category.\<close>

definition handle_line :: "tables \<Rightarrow> string \<Rightarrow> error + tables" where
  "handle_line self line =
     (case classify line of
        None \<Rightarrow> Inl (ValueError (''Invalid header line: '' @ line))
      | Some PEDIGREE \<Rightarrow> Inl NotImplementedError
      | Some KEYPAIR \<Rightarrow>
          Inr (table_update KEYPAIR (\<lambda>df. df_append df (keypair_record line)) self)
      | Some c \<Rightarrow>
          (case multi_key_parse line (columns (table_of c self)) of
             Inl e \<Rightarrow> Inl e
           | Inr r \<Rightarrow> Inr (table_update c (\<lambda>df. df_append df r) self)))"

text \<open>
  The list \<open>keyvals\<close> of \<open>multi_key_parse\<close>: the pieces of every token of the
  attribute list of a line.
\<close>

definition keyvals_of :: "string \<Rightarrow> string list list" where
  "keyvals_of line =
     (case str_split ''=<'' line of
        piece # inner # extra \<Rightarrow> map (str_split ''='') (findall_tokens (butlast inner))
      | _ \<Rightarrow> [])"

text \<open>
  Writing a record back as a bracketed attribute line: the fields that have a value,
  as \<open>field=value\<close>, in the order of the record, with commas between them.
\<close>

fun str_join :: "string \<Rightarrow> string list \<Rightarrow> string" where
  "str_join sep [] = []"
| "str_join sep [x] = x"
| "str_join sep (x # y # ys) = x @ sep @ str_join sep (y # ys)"

definition reserialize :: "string \<Rightarrow> pydict \<Rightarrow> string" where
  "reserialize prefix new_rec =
     prefix @ ''=<'' @
     str_join '',''
       (concat (map (\<lambda>(f, v). case v of None \<Rightarrow> [] | Some s \<Rightarrow> [f @ ''='' @ s]) new_rec))
     @ ''>''"

text \<open>
  A well-formed field \<open>name=value\<close> of an attribute list. The name is made of
  characters of the class \<open>[^\s,"]\<close> other than \<open>=\<close>. The value is either made
  of characters of that class, or a quoted string: a quote, a body, a
  quote, where the body has no quote but after a backslash, and every backslash of
  the body is followed by a character other than a newline, the two making an escape.
\<close>

datatype attr_value = Plain string | Quoted string

fun well_escaped :: "string \<Rightarrow> bool" where
  "well_escaped [] = True"
| "well_escaped [c] = (c \<noteq> dquote \<and> c \<noteq> backslash)"
| "well_escaped (c # d # ds) =
     (if c = backslash then d \<noteq> newline \<and> well_escaped ds
      else c \<noteq> dquote \<and> well_escaped (d # ds))"

fun render_value :: "attr_value \<Rightarrow> string" where
  "render_value (Plain v) = v"
| "render_value (Quoted b) = dquote # b @ [dquote]"

fun wf_value :: "attr_value \<Rightarrow> bool" where
  "wf_value (Plain v) = list_all plain_char v"
| "wf_value (Quoted b) = well_escaped b"

definition render_field :: "string \<times> attr_value \<Rightarrow> string" where
  "render_field fv = fst fv @ ''='' @ render_value (snd fv)"

definition wf_field :: "string \<times> attr_value \<Rightarrow> bool" where
  "wf_field fv = (list_all plain_char (fst fv) \<and> CHR ''='' \<notin> set (fst fv) \<and> wf_value (snd fv))"

text \<open>
  A separator is made of commas and white space. In an attribute list every field
  comes with the separator in front of it, which is not empty but possibly for the
  first field.
\<close>

definition is_separator :: "string \<Rightarrow> bool" where
  "is_separator s = list_all (\<lambda>c. isspace c \<or> c = CHR '','') s"

fun render_fields :: "(string \<times> string \<times> attr_value) list \<Rightarrow> string" where
  "render_fields [] = []"
| "render_fields ((sep, fv) # rest) = sep @ render_field fv @ render_fields rest"

fun wf_fields :: "bool \<Rightarrow> (string \<times> string \<times> attr_value) list \<Rightarrow> bool" where
  "wf_fields first [] = True"
| "wf_fields first ((sep, fv) # rest) =
     (is_separator sep \<and> (first \<or> sep \<noteq> []) \<and> wf_field fv \<and> wf_fields False rest)"








text \<open>Example inputs.\<close>

definition comma_equals_line :: string where
  "comma_equals_line =
     ''INFO=<ID=X,Description='' @ [dquote] @ ''a, b (AF=AC/AN)'' @ [dquote] @ ''>''"

definition quoted_bracket_line :: string where
  "quoted_bracket_line =
     ''INFO=<ID=X,Source='' @ [dquote] @ ''a=<b'' @ [dquote] @ '',Description='' @ [dquote]
     @ ''d'' @ [dquote] @ ''>''"

definition trailing_blank_line :: string where
  "trailing_blank_line = ''INFO=<ID=X,Number=1> ''"



definition bogus_header :: string where
  "bogus_header =
     ''##fileformat=VCFv4.2'' @ [newline] @ ''##BOGUS stuff here'' @ [newline] @ ''##a=b''"

definition quoted_equals_line :: string where
  "quoted_equals_line = ''INFO=<ID=X,Description='' @ [dquote] @ ''a=b'' @ [dquote] @ ''>''"

section \<open>Facts about the string operations\<close>

lemma str_contains_iff: "str_contains s sub = (\<exists>a b. s = a @ sub @ b)"
proof (induction s)
  case Nil
  then show ?case by auto
next
  case (Cons c cs)
  show ?case
  proof
    assume "str_contains (c # cs) sub"
    then consider "startswith (c # cs) sub" | "str_contains cs sub" by auto
    then show "\<exists>a b. c # cs = a @ sub @ b"
    proof cases
      case 1
      then have "c # cs = [] @ sub @ drop (length sub) (c # cs)"
        unfolding startswith_def by (metis append_Nil append_take_drop_id)
      then show ?thesis by blast
    next
      case 2
      with Cons obtain a b where "cs = a @ sub @ b" by auto
      then have "c # cs = (c # a) @ sub @ b" by simp
      then show ?thesis by blast
    qed
  next
    assume "\<exists>a b. c # cs = a @ sub @ b"
    then obtain a b where ab: "c # cs = a @ sub @ b" by auto
    show "str_contains (c # cs) sub"
    proof (cases a)
      case Nil
      with ab have "startswith (c # cs) sub" by (simp add: startswith_def)
      then show ?thesis by simp
    next
      case (Cons x a')
      with ab have "cs = a' @ sub @ b" by simp
      with Cons.IH show ?thesis by auto
    qed
  qed
qed

lemma split_from_absent:
  "\<not> str_contains s (d # ds) \<Longrightarrow> split_from (d # ds) acc s = [rev acc @ s]"
proof (induction s arbitrary: acc)
  case Nil
  then show ?case by simp
next
  case (Cons c cs)
  from Cons.prems have ns: "\<not> startswith (c # cs) (d # ds)" and nc: "\<not> str_contains cs (d # ds)"
    by simp_all
  from ns have "\<not> (c = d \<and> take (length ds) cs = ds)"
    by (auto simp: startswith_def)
  then have "split_from (d # ds) acc (c # cs) = split_from (d # ds) (c # acc) cs"
    by auto
  also have "\<dots> = [rev (c # acc) @ cs]"
    using Cons.IH [OF nc] .
  finally show ?case by simp
qed

lemma split_from_char:
  "split_from [d] acc s =
     (rev acc @ takeWhile (\<lambda>c. c \<noteq> d) s) #
     (case dropWhile (\<lambda>c. c \<noteq> d) s of [] \<Rightarrow> [] | x # rest \<Rightarrow> split_from [d] [] rest)"
  by (induction s arbitrary: acc) auto

lemma length_split_from_char:
  "length (split_from [d] acc s) = Suc (length (filter (\<lambda>c. c = d) s))"
  by (induction s arbitrary: acc) auto

lemma split_from_char_absent: "d \<notin> set s \<Longrightarrow> split_from [d] acc s = [rev acc @ s]"
  by (induction s arbitrary: acc) auto

lemma str_split_two:
  assumes "length (str_split [d] s) = 2"
  shows "str_split [d] s = [takeWhile (\<lambda>c. c \<noteq> d) s, tl (dropWhile (\<lambda>c. c \<noteq> d) s)]
         \<and> s = takeWhile (\<lambda>c. c \<noteq> d) s @ d # tl (dropWhile (\<lambda>c. c \<noteq> d) s)
         \<and> d \<notin> set (takeWhile (\<lambda>c. c \<noteq> d) s)
         \<and> d \<notin> set (tl (dropWhile (\<lambda>c. c \<noteq> d) s))"
proof -
  let ?a = "takeWhile (\<lambda>c. c \<noteq> d) s" and ?r = "dropWhile (\<lambda>c. c \<noteq> d) s"
  have sp: "str_split [d] s = ?a # (case ?r of [] \<Rightarrow> [] | x # rest \<Rightarrow> split_from [d] [] rest)"
    unfolding str_split_def using split_from_char [of d "[]" s] by simp
  from assms sp obtain x rest where r: "?r = x # rest"
    by (cases ?r) auto
  then have x: "x = d"
    using hd_dropWhile [of "\<lambda>c. c \<noteq> d" s] by (metis list.sel(1) list.simps(3))
  from assms sp r have "length (split_from [d] [] rest) = 1"
    by simp
  then have "filter (\<lambda>c. c = d) rest = []"
    by (simp add: length_split_from_char)
  then have nd: "d \<notin> set rest"
    by (auto simp: filter_empty_conv)
  then have "split_from [d] [] rest = [rest]"
    by (simp add: split_from_char_absent)
  with sp r have 1: "str_split [d] s = [?a, tl ?r]"
    by simp
  have 2: "s = ?a @ d # tl ?r"
    using takeWhile_dropWhile_id [of "\<lambda>c. c \<noteq> d" s] r x by simp
  have 3: "d \<notin> set ?a"
    by (auto dest: set_takeWhileD)
  from 1 2 3 nd r show ?thesis
    by simp
qed

lemma split_from_first:
  "d \<notin> set a \<Longrightarrow>
   split_from (d # ds) acc (a @ (d # ds) @ b) = (rev acc @ a) # split_from (d # ds) [] b"
  by (induction a arbitrary: acc) auto

lemma str_split_field:
  assumes "CHR ''='' \<notin> set n"
  shows "str_split ''='' (n @ ''='' @ rv) = n # str_split ''='' rv"
  unfolding str_split_def using split_from_first [OF assms, of "[]" "[]" rv] by simp

lemma str_split_nonempty: "str_split [d] s \<noteq> []"
  unfolding str_split_def by (subst split_from_char) simp

lemma str_split_absent: "d \<notin> set s \<Longrightarrow> str_split [d] s = [s]"
  unfolding str_split_def by (simp add: split_from_char_absent)

section \<open>Facts about \<open>parse_headers\<close>\<close>

lemma parse_lines_stop:
  "take 2 l \<noteq> ''##'' \<Longrightarrow> parse_lines self (pre @ l # post) = parse_lines self pre"
proof (induction pre arbitrary: self)
  case Nil
  then show ?case by simp
next
  case (Cons x pre)
  then show ?case
    by (simp split: sum.splits)
qed

lemma parse_lines_append:
  "list_all (\<lambda>x. take 2 x = ''##'') pre \<Longrightarrow>
   parse_lines self (pre @ rest) =
     (case parse_lines self pre of Inl e \<Rightarrow> Inl e | Inr self' \<Rightarrow> parse_lines self' rest)"
proof (induction pre arbitrary: self)
  case Nil
  then show ?case by simp
next
  case (Cons x pre)
  then show ?case
    by (simp split: sum.splits)
qed

lemma parse_header_line_handle: "parse_header_line self line = handle_line self line"
proof (cases "classify line = Some KEYPAIR")
  case True
  then have two: "length (str_split ''='' line) = 2"
    by (auto simp: classify_def category_prefixes_def split: if_splits option.splits)
  from True have np: "\<not> startswith line ''INFO''" "\<not> startswith line ''FILTER''"
    "\<not> startswith line ''FORMAT''" "\<not> startswith line ''ALT''" "\<not> startswith line ''contig''"
    "\<not> startswith line ''SAMPLE''" "\<not> startswith line ''PEDIGREE''"
    by (auto simp: classify_def category_prefixes_def split: if_splits)
  have "parse_keypair self line =
      Inr (self\<lparr>md_keypairs := df_append (md_keypairs self) (keypair_record line)\<rparr>)"
    using str_split_two [OF two] by (simp add: parse_keypair_def keypair_record_def)
  with True two np show ?thesis
    by (simp add: parse_header_line_def handle_line_def)
next
  case False
  then show ?thesis
    by (auto simp: parse_header_line_def handle_line_def classify_def category_prefixes_def
        parse_pedigree_def split: sum.splits)
qed

section \<open>Facts about \<open>multi_key_parse\<close>\<close>

lemma vals_d_None:
  "vals_d d kvs = Inr d' \<Longrightarrow> (d' f = None) = (d f = None \<and> f \<notin> hd ` set kvs)"
  by (induction d kvs rule: vals_d.induct) auto

lemma vals_d_Some:
  "vals_d d kvs = Inr d' \<Longrightarrow> d' f = Some v \<Longrightarrow>
   d f = Some v \<or> (\<exists>extra. f # v # extra \<in> set kvs)"
proof (induction d kvs rule: vals_d.induct)
  case (4 d k v' extra keyvals)
  from "4.prems" have "vals_d (d(k \<mapsto> v')) keyvals = Inr d'"
    by simp
  from "4.IH" [OF this "4.prems"(2)]
  show ?case
    by (auto split: if_splits)
qed simp_all

lemma vals_d_keeps:
  "vals_d d kvs = Inr d' \<Longrightarrow> f \<notin> hd ` set kvs \<Longrightarrow> d' f = d f"
  by (induction d kvs rule: vals_d.induct) auto

lemma vals_d_append:
  "vals_d d (xs @ ys) = (case vals_d d xs of Inl e \<Rightarrow> Inl e | Inr d1 \<Rightarrow> vals_d d1 ys)"
proof (induction d xs rule: vals_d.induct)
  case (4 d k v extra keyvals)
  have "vals_d d (((k # v # extra) # keyvals) @ ys) = vals_d (d(k \<mapsto> v)) (keyvals @ ys)"
    by simp
  also have "\<dots> = (case vals_d (d(k \<mapsto> v)) keyvals of Inl e \<Rightarrow> Inl e | Inr d1 \<Rightarrow> vals_d d1 ys)"
    by (rule "4.IH")
  also have "\<dots> = (case vals_d d ((k # v # extra) # keyvals) of Inl e \<Rightarrow> Inl e | Inr d1 \<Rightarrow> vals_d d1 ys)"
    by simp
  finally show ?case .
qed simp_all

lemma vals_d_last:
  assumes "vals_d d (before @ (f # v # extra) # after) = Inr d'" and "f \<notin> hd ` set after"
  shows "d' f = Some v"
proof -
  from assms(1) obtain d1 where "vals_d d before = Inr d1"
    and "vals_d (d1(f \<mapsto> v)) after = Inr d'"
    by (auto simp: vals_d_append split: sum.splits)
  from vals_d_keeps [OF this(2) assms(2)] show ?thesis
    by simp
qed

lemma multi_key_parse_Inr:
  assumes "multi_key_parse line flds = Inr new_rec"
  obtains d where "vals_d Map.empty (keyvals_of line) = Inr d"
    and "new_rec = map (\<lambda>field. (field, d field)) flds"
  using assms
  by (auto simp: multi_key_parse_def keyvals_of_def split: list.splits sum.splits)

text \<open>
  The shape of the record that \<open>multi_key_parse\<close> returns, in terms of the pieces
  \<open>keyvals\<close> that the function itself cuts the line into.
\<close>

lemma multi_key_parse_record:
  assumes "multi_key_parse line flds = Inr new_rec"
  shows "map fst new_rec = flds
    \<and> (\<forall>f v. (f, Some v) \<in> set new_rec \<longrightarrow>
          f \<in> set flds \<and> (\<exists>extra. f # v # extra \<in> set (keyvals_of line)))
    \<and> (\<forall>f before v extra after.
          f \<in> set flds \<and> keyvals_of line = before @ (f # v # extra) # after
          \<and> f \<notin> hd ` set after \<longrightarrow> (f, Some v) \<in> set new_rec)
    \<and> (\<forall>f. (f, None) \<in> set new_rec \<longleftrightarrow> f \<in> set flds \<and> f \<notin> hd ` set (keyvals_of line))
    \<and> (None :: string option) \<noteq> Some ''''
    \<and> (\<forall>flds'. \<exists>r. multi_key_parse line flds' = Inr r)"
proof -
  from assms obtain d where d: "vals_d Map.empty (keyvals_of line) = Inr d"
    and r: "new_rec = map (\<lambda>field. (field, d field)) flds"
    by (rule multi_key_parse_Inr)
  have 1: "map fst new_rec = flds"
    unfolding r by (simp add: comp_def)
  have mem: "((f, x) \<in> set new_rec) = (f \<in> set flds \<and> x = d f)" for f x
    unfolding r by auto
  have 2: "f \<in> set flds \<and> (\<exists>extra. f # v # extra \<in> set (keyvals_of line))"
    if "(f, Some v) \<in> set new_rec" for f v
    using that vals_d_Some [OF d, of f v] by (auto simp: mem)
  have 3: "(f, Some v) \<in> set new_rec"
    if "f \<in> set flds \<and> keyvals_of line = before @ (f # v # extra) # after \<and> f \<notin> hd ` set after"
    for f before v extra after
    using that d vals_d_last [of Map.empty before f v extra after d] by (simp add: mem)
  have 4: "((f, None) \<in> set new_rec) = (f \<in> set flds \<and> f \<notin> hd ` set (keyvals_of line))" for f
    using vals_d_None [OF d, of f] by (auto simp: mem)
  have 5: "\<exists>r. multi_key_parse line flds' = Inr r" for flds'
    using assms
    by (auto simp: multi_key_parse_def split: list.splits sum.splits)
  from 1 2 3 4 5 show ?thesis
    by blast
qed

lemma vals_d_succeeds:
  "list_all (\<lambda>p. 2 \<le> length p) kvs \<Longrightarrow> \<exists>d'. vals_d d kvs = Inr d'"
  by (induction d kvs rule: vals_d.induct) simp_all

section \<open>Facts about the tokens of well-formed fields\<close>

lemma quoted_body_well_escaped:
  "well_escaped b \<Longrightarrow> quoted_body (b @ dquote # rest) = Some (b @ [dquote], rest)"
proof (induction b rule: well_escaped.induct)
  case 1
  then show ?case by simp
next
  case (2 c)
  then show ?case by simp
next
  case (3 c d ds)
  show ?case
  proof (cases "c = backslash")
    case True
    with "3.prems" have d: "d \<noteq> newline" and w: "well_escaped ds"
      by simp_all
    from "3.IH"(1) [OF True w] True d show ?thesis
      by simp
  next
    case False
    with "3.prems" have c: "c \<noteq> dquote" and w: "well_escaped (d # ds)"
      by simp_all
    from "3.IH"(2) [OF False w] False c show ?thesis
      by simp
  qed
qed

lemma match_token_plain:
  "list_all plain_char v \<Longrightarrow>
   match_token (v @ rest) = (v @ fst (match_token rest), snd (match_token rest))"
  by (induction v) (simp_all add: case_prod_beta)

lemma match_token_quoted:
  assumes "well_escaped b"
  shows "match_token (dquote # b @ dquote # rest) =
         (dquote # b @ [dquote] @ fst (match_token rest), snd (match_token rest))"
proof -
  have "\<not> plain_char dquote"
    by (simp add: plain_char_def)
  then show ?thesis
    using quoted_body_well_escaped [OF assms, of rest] by (simp add: case_prod_beta)
qed

lemma match_token_stop:
  "rest = [] \<or> (\<not> plain_char (hd rest) \<and> hd rest \<noteq> dquote) \<Longrightarrow> match_token rest = ([], rest)"
  by (cases rest) auto

lemma match_token_value:
  "wf_value v \<Longrightarrow>
   match_token (render_value v @ rest) =
     (render_value v @ fst (match_token rest), snd (match_token rest))"
proof (cases v)
  case (Plain x)
  assume "wf_value v"
  with Plain show ?thesis by (simp add: match_token_plain)
next
  case (Quoted b)
  assume "wf_value v"
  with Quoted show ?thesis using match_token_quoted [of b rest] by simp
qed

lemma plain_equals: "plain_char (CHR ''='')"
  by (simp add: plain_char_def isspace_def)

lemma match_token_field:
  assumes "wf_field fv" and "rest = [] \<or> (\<not> plain_char (hd rest) \<and> hd rest \<noteq> dquote)"
  shows "match_token (render_field fv @ rest) = (render_field fv, rest)"
proof -
  have n: "list_all plain_char (fst fv @ ''='')"
    using assms(1) by (simp add: wf_field_def plain_equals)
  have v: "wf_value (snd fv)"
    using assms(1) by (simp add: wf_field_def)
  have "render_field fv @ rest = (fst fv @ ''='') @ (render_value (snd fv) @ rest)"
    by (simp add: render_field_def)
  then have "match_token (render_field fv @ rest) =
      ((fst fv @ ''='') @ fst (match_token (render_value (snd fv) @ rest)),
       snd (match_token (render_value (snd fv) @ rest)))"
    using match_token_plain [OF n] by simp
  also have "match_token (render_value (snd fv) @ rest) = (render_value (snd fv), rest)"
    using match_token_value [OF v, of rest] match_token_stop [OF assms(2)] by simp
  finally show ?thesis
    by (simp add: render_field_def)
qed

lemma findall_tokens_field:
  assumes "wf_field fv" and "rest = [] \<or> (\<not> plain_char (hd rest) \<and> hd rest \<noteq> dquote)"
  shows "findall_tokens (render_field fv @ rest) = render_field fv # findall_tokens rest"
proof -
  obtain c cs where f: "render_field fv = c # cs"
    by (cases "render_field fv") (simp_all add: render_field_def)
  have "match_token (c # cs @ rest) = (c # cs, rest)"
    using match_token_field [OF assms] f by simp
  then have "findall_tokens (c # cs @ rest) = (c # cs) # findall_tokens rest"
    by (simp del: match_token.simps)
  with f show ?thesis by simp
qed

lemma separator_char: "isspace c \<or> c = CHR '','' \<Longrightarrow> \<not> plain_char c \<and> c \<noteq> dquote"
  by (auto simp: plain_char_def isspace_def)

lemma findall_tokens_separator:
  "is_separator sep \<Longrightarrow> findall_tokens (sep @ s) = findall_tokens s"
proof (induction sep)
  case Nil
  then show ?case by simp
next
  case (Cons c sep)
  then have "\<not> plain_char c \<and> c \<noteq> dquote" and "is_separator sep"
    by (simp_all add: is_separator_def separator_char)
  with Cons.IH show ?case
    by simp
qed

lemma separator_starts:
  "is_separator s \<Longrightarrow> s @ t = [] \<or> s = [] \<or> (\<not> plain_char (hd (s @ t)) \<and> hd (s @ t) \<noteq> dquote)"
  by (cases s) (simp_all add: is_separator_def separator_char)

lemma rest_starts:
  assumes "wf_fields False rest" and "is_separator trail"
  shows "render_fields rest @ trail = []
       \<or> (\<not> plain_char (hd (render_fields rest @ trail)) \<and> hd (render_fields rest @ trail) \<noteq> dquote)"
proof (cases rest)
  case Nil
  with separator_starts [OF assms(2), of "[]"] show ?thesis
    by auto
next
  case (Cons x xs)
  obtain sep fv where x: "x = (sep, fv)"
    by (cases x)
  from assms(1) Cons x have "is_separator sep" and "sep \<noteq> []"
    by simp_all
  with separator_starts [of sep "render_field fv @ render_fields xs @ trail"] Cons x
  show ?thesis
    by simp
qed

lemma findall_tokens_fields:
  "wf_fields first items \<Longrightarrow> is_separator trail \<Longrightarrow>
   findall_tokens (render_fields items @ trail) = map (render_field \<circ> snd) items"
proof (induction items arbitrary: first)
  case Nil
  then show ?case
    using findall_tokens_separator [of trail "[]"] by simp
next
  case (Cons x items)
  obtain sep fv where x: "x = (sep, fv)"
    by (cases x)
  from Cons.prems(1) x have s: "is_separator sep" and f: "wf_field fv"
    and r: "wf_fields False items"
    by simp_all
  let ?rest = "render_fields items @ trail"
  have "findall_tokens (render_fields (x # items) @ trail) =
      findall_tokens (render_field fv @ ?rest)"
    using findall_tokens_separator [OF s] x by simp
  also have "\<dots> = render_field fv # findall_tokens ?rest"
    using findall_tokens_field [OF f rest_starts [OF r Cons.prems(2)]] .
  also have "findall_tokens ?rest = map (render_field \<circ> snd) items"
    using Cons.IH [OF r Cons.prems(2)] .
  finally show ?case
    using x by simp
qed

lemma wf_fields_all: "wf_fields first items \<Longrightarrow> list_all (wf_field \<circ> snd) items"
  by (induction first items rule: wf_fields.induct) simp_all

lemma keyvals_of_fields:
  assumes wf: "wf_fields True items" and tr: "is_separator trail"
    and p: "CHR ''='' \<notin> set prefix"
    and b: "\<not> str_contains (render_fields items @ trail @ ''>'') ''=<''"
  shows "str_split ''=<'' (prefix @ ''=<'' @ render_fields items @ trail @ ''>'') =
           [prefix, render_fields items @ trail @ ''>'']"
    and "keyvals_of (prefix @ ''=<'' @ render_fields items @ trail @ ''>'') =
           map (\<lambda>x. fst (snd x) # str_split ''='' (render_value (snd (snd x)))) items"
proof -
  have "split_from ''=<'' [] (render_fields items @ trail @ ''>'') =
      [render_fields items @ trail @ ''>'']"
    using split_from_absent [OF b, of "[]"] by simp
  then show s: "str_split ''=<'' (prefix @ ''=<'' @ render_fields items @ trail @ ''>'') =
           [prefix, render_fields items @ trail @ ''>'']"
    unfolding str_split_def
    using split_from_first [OF p, of "''<''" "[]" "render_fields items @ trail @ ''>''"] by simp
  have "str_split ''='' (render_field fv) = fst fv # str_split ''='' (render_value (snd fv))"
    if "wf_field fv" for fv
    using that str_split_field [of "fst fv" "render_value (snd fv)"]
    by (simp add: wf_field_def render_field_def)
  then have "map (str_split ''='') (map (render_field \<circ> snd) items) =
      map (\<lambda>x. fst (snd x) # str_split ''='' (render_value (snd (snd x)))) items"
    using wf_fields_all [OF wf] by (induction items) simp_all
  moreover have "butlast (render_fields items @ trail @ ''>'') = render_fields items @ trail"
    by (simp add: butlast_append)
  ultimately show "keyvals_of (prefix @ ''=<'' @ render_fields items @ trail @ ''>'') =
           map (\<lambda>x. fst (snd x) # str_split ''='' (render_value (snd (snd x)))) items"
    unfolding keyvals_of_def s by (simp add: findall_tokens_fields [OF wf tr])
qed

text \<open>
  Where the quoted value of a well-formed field is kept whole: the prefix of the line
  has no \<open>=\<close>, the attribute list has no \<open>=<\<close>, and the body of the value has no
  \<open>=\<close>.
\<close>

lemma quoted_value_without_equals_is_kept:
  assumes wf: "wf_fields True items" and tr: "is_separator trail"
  shows "findall_tokens (render_fields items @ trail) = map (render_field \<circ> snd) items
    \<and> (CHR ''='' \<notin> set prefix \<and> \<not> str_contains (render_fields items @ trail @ ''>'') ''=<'' \<longrightarrow>
         (\<exists>new_rec.
            multi_key_parse (prefix @ ''=<'' @ render_fields items @ trail @ ''>'') flds =
              Inr new_rec
            \<and> (\<forall>before sep n b after.
                  items = before @ (sep, n, Quoted b) # after \<and> n \<notin> (fst \<circ> snd) ` set after
                  \<and> CHR ''='' \<notin> set b \<and> n \<in> set flds \<longrightarrow>
                  (n, Some (dquote # b @ [dquote])) \<in> set new_rec)))"
proof -
  let ?line = "prefix @ ''=<'' @ render_fields items @ trail @ ''>''"
  let ?kv = "\<lambda>x. fst (snd x) # str_split ''='' (render_value (snd (snd x)))"
  have tok: "findall_tokens (render_fields items @ trail) = map (render_field \<circ> snd) items"
    by (rule findall_tokens_fields [OF wf tr])
  have ext: "\<exists>new_rec. multi_key_parse ?line flds = Inr new_rec
            \<and> (\<forall>before sep n b after.
                  items = before @ (sep, n, Quoted b) # after \<and> n \<notin> (fst \<circ> snd) ` set after
                  \<and> CHR ''='' \<notin> set b \<and> n \<in> set flds \<longrightarrow>
                  (n, Some (dquote # b @ [dquote])) \<in> set new_rec)"
    if p: "CHR ''='' \<notin> set prefix"
      and b: "\<not> str_contains (render_fields items @ trail @ ''>'') ''=<''"
  proof -
    note kv = keyvals_of_fields [OF wf tr p b]
    have "list_all (\<lambda>p. 2 \<le> length p) (map ?kv items)"
      using str_split_nonempty [of "CHR ''=''"]
      by (simp add: list_all_iff Suc_le_eq)
    then obtain d where d: "vals_d Map.empty (keyvals_of ?line) = Inr d"
      unfolding kv(2) using vals_d_succeeds by blast
    have m: "multi_key_parse ?line flds = Inr (map (\<lambda>field. (field, d field)) flds)"
      using d kv(1) by (simp add: multi_key_parse_def keyvals_of_def)
    have "(n, Some (dquote # b @ [dquote])) \<in> set (map (\<lambda>field. (field, d field)) flds)"
      if i: "items = before @ (sep, n, Quoted b) # after"
        and l: "n \<notin> (fst \<circ> snd) ` set after"
        and e: "CHR ''='' \<notin> set b" and f: "n \<in> set flds" for before sep n b after
    proof -
      have "str_split ''='' (dquote # b @ [dquote]) = [dquote # b @ [dquote]]"
        using e by (simp add: str_split_absent)
      then have "map ?kv items =
          map ?kv before @ (n # (dquote # b @ [dquote]) # []) # map ?kv after"
        unfolding i by simp
      with kv(2) have "keyvals_of ?line =
          map ?kv before @ (n # (dquote # b @ [dquote]) # []) # map ?kv after"
        by simp
      moreover have "n \<notin> hd ` set (map ?kv after)"
        using l by (auto simp: image_iff)
      moreover note d
      ultimately have "d n = Some (dquote # b @ [dquote])"
        using vals_d_last [of Map.empty "map ?kv before" n "dquote # b @ [dquote]" "[]"
            "map ?kv after" d]
        by simp
      with f show ?thesis
        by (auto simp: image_iff)
    qed
    with m show ?thesis
      by blast
  qed
  from tok ext show ?thesis
    by blast
qed

section \<open>Facts about the tables\<close>












section \<open>The claims\<close>

text \<open>
  C1 (the program does otherwise). A quoted value with an \<open>=\<close> inside is one token of
  the regular expression, but \<open>pair.split('=')\<close> cuts the token at every \<open>=\<close> and
  only the first two pieces are kept: for the line
  \<open>INFO=<ID=X,Description="a=b">\<close> the field \<open>Description\<close> gets the value \<open>"a\<close>,
  not \<open>"a=b"\<close>.
\<close>

theorem C1_quoted_equals_is_cut:
  "findall_tokens (''ID=X,Description='' @ [dquote] @ ''a=b'' @ [dquote]) =
     [''ID=X'', ''Description='' @ [dquote] @ ''a=b'' @ [dquote]]
   \<and> multi_key_parse (''INFO=<ID=X,Description='' @ [dquote] @ ''a=b'' @ [dquote] @ ''>'')
         [''ID'', ''Description''] =
       Inr [(''ID'', Some ''X''), (''Description'', Some (dquote # ''a''))]"
  by code_simp

text \<open>
  C2 (the program does otherwise). A quoted value with commas in it is one token of
  \<open>findall\<close>, but the value that \<open>multi_key_parse\<close> extracts does not always keep its
  quotes: for the line \<open>INFO=<ID=X,Description="a, b (AF=AC/AN)">\<close> the token is cut
  at its second \<open>=\<close> and \<open>Description\<close> gets \<open>"a, b (AF\<close>, with no closing quote.
\<close>

theorem C2_quoted_value_with_commas_is_cut:
  "findall_tokens (''ID=X,Description='' @ [dquote] @ ''a, b (AF=AC/AN)'' @ [dquote]) =
     [''ID=X'', ''Description='' @ [dquote] @ ''a, b (AF=AC/AN)'' @ [dquote]]
   \<and> multi_key_parse comma_equals_line [''ID'', ''Description''] =
       Inr [(''ID'', Some ''X''), (''Description'', Some (dquote # ''a, b (AF''))]"
  by code_simp

text \<open>
  C3. The loop returns at the first line that does not begin with \<open>##\<close>: when the
  header splits into the lines \<open>pre\<close>, a line \<open>l\<close> that does not begin with \<open>##\<close>
  and the lines \<open>post\<close>, the result of \<open>parse_headers\<close>, and with it the workbook,
  is the result of the loop over \<open>pre\<close> alone, whatever \<open>l\<close> and \<open>post\<close> are.
\<close>

theorem C3_stops_at_first_unmarked_line:
  assumes "str_split [newline] raw_header = pre @ l # post"
    and "take 2 l \<noteq> ''##''"
  shows "parse_headers self raw_header = parse_lines self pre
         \<and> Vcf2Excel_init raw_header =
             (case parse_lines init_tables pre of
                Inl e \<Rightarrow> Inl e
              | Inr self' \<Rightarrow> Inr (write_spreadsheet self'))"
  using assms by (simp add: parse_headers_def Vcf2Excel_init_def parse_lines_stop)

theorem C3_witness:
  "str_split [newline] (''##a=b'' @ [newline] @ ''#CHROM'' @ [newline] @ ''##c=d'') =
     [''##a=b''] @ ''#CHROM'' # [''##c=d'']
   \<and> take 2 ''#CHROM'' \<noteq> ''##''
   \<and> parse_headers init_tables (''##a=b'' @ [newline] @ ''#CHROM'' @ [newline] @ ''##c=d'') =
       parse_lines init_tables [''##a=b'']
   \<and> parse_lines init_tables [''##a=b''] =
       Inr (init_tables\<lparr>md_keypairs :=
              \<lparr>columns = [''Name'', ''Value''],
                 rows = [[(''Name'', Some ''a''), (''Value'', Some ''b'')]]\<rparr>\<rparr>)"
proof -
  have s: "str_split [newline] (''##a=b'' @ [newline] @ ''#CHROM'' @ [newline] @ ''##c=d'') =
     [''##a=b''] @ ''#CHROM'' # [''##c=d'']"
    by (simp add: str_split_def)
  have t: "take 2 ''#CHROM'' \<noteq> ''##''"
    by simp
  have p: "parse_lines init_tables [''##a=b''] =
       Inr (init_tables\<lparr>md_keypairs :=
              \<lparr>columns = [''Name'', ''Value''],
                 rows = [[(''Name'', Some ''a''), (''Value'', Some ''b'')]]\<rparr>\<rparr>)"
    by (simp add: str_split_def str_strip_def parse_header_line_def startswith_def
        parse_keypair_def init_tables_def DataFrame_def df_append_def)
  from C3_stops_at_first_unmarked_line [OF s t, of init_tables] s t p show ?thesis
    by blast
qed

text \<open>
  C4. The chain of tests of \<open>parse_headers\<close> is the classification of the
  specification: the line is handled as \<open>handle_line\<close> says, by the first prefix of
  the ordered list that it begins with (the comparison is exact, so case matters);
  a line is a key/value pair exactly when it begins with none of the prefixes and
  splitting it on \<open>=\<close> gives two pieces, which is when it has exactly one \<open>=\<close>; the
  record of a key/value pair is the text before that \<open>=\<close> and the text after it,
  unchanged.
\<close>

theorem C4_classification:
  "parse_header_line self line = handle_line self line
   \<and> (classify line = Some KEYPAIR \<longleftrightarrow>
        list_all (\<lambda>(p, c). \<not> startswith line p) category_prefixes
        \<and> length (str_split ''='' line) = 2)
   \<and> (length (str_split ''='' line) = 2 \<longleftrightarrow> length (filter (\<lambda>c. c = CHR ''='') line) = 1)
   \<and> (classify line = Some KEYPAIR \<longrightarrow>
        parse_header_line self line =
          Inr (self\<lparr>md_keypairs := df_append (md_keypairs self) (keypair_record line)\<rparr>)
        \<and> (\<exists>name val. keypair_record line = [(''Name'', Some name), (''Value'', Some val)]
              \<and> line = name @ ''='' @ val
              \<and> CHR ''='' \<notin> set name \<and> CHR ''='' \<notin> set val))"
proof -
  have 1: "parse_header_line self line = handle_line self line"
    by (rule parse_header_line_handle)
  have 2: "classify line = Some KEYPAIR \<longleftrightarrow>
        list_all (\<lambda>(p, c). \<not> startswith line p) category_prefixes
        \<and> length (str_split ''='' line) = 2"
    by (auto simp: classify_def category_prefixes_def)
  have 3: "length (str_split ''='' line) = 2 \<longleftrightarrow> length (filter (\<lambda>c. c = CHR ''='') line) = 1"
    by (simp add: str_split_def length_split_from_char)
  have 4: "parse_header_line self line =
          Inr (self\<lparr>md_keypairs := df_append (md_keypairs self) (keypair_record line)\<rparr>)
        \<and> (\<exists>name val. keypair_record line = [(''Name'', Some name), (''Value'', Some val)]
              \<and> line = name @ ''='' @ val
              \<and> CHR ''='' \<notin> set name \<and> CHR ''='' \<notin> set val)"
    if k: "classify line = Some KEYPAIR"
  proof -
    from k 2 have two: "length (str_split ''='' line) = 2"
      by simp
    from str_split_two [OF two]
    have "\<exists>name val. keypair_record line = [(''Name'', Some name), (''Value'', Some val)]
              \<and> line = name @ ''='' @ val
              \<and> CHR ''='' \<notin> set name \<and> CHR ''='' \<notin> set val"
      unfolding keypair_record_def by auto
    moreover have "parse_header_line self line =
          Inr (self\<lparr>md_keypairs := df_append (md_keypairs self) (keypair_record line)\<rparr>)"
      unfolding 1 using k by (simp add: handle_line_def)
    ultimately show ?thesis by simp
  qed
  from 1 2 3 4 show ?thesis
    by blast
qed

theorem C4_witness:
  "classify ''myKey=myValue'' = Some KEYPAIR
   \<and> classify ''info=x'' = Some KEYPAIR
   \<and> classify ''INFO=x'' = Some INFO
   \<and> classify ''a=b=c'' = None
   \<and> parse_header_line init_tables ''myKey=myValue'' =
       Inr (init_tables\<lparr>md_keypairs :=
              \<lparr>columns = [''Name'', ''Value''],
                 rows = [[(''Name'', Some ''myKey''), (''Value'', Some ''myValue'')]]\<rparr>\<rparr>)"
proof -
  have c: "classify ''myKey=myValue'' = Some KEYPAIR"
    by (simp add: classify_def category_prefixes_def startswith_def str_split_def)
  have o: "classify ''info=x'' = Some KEYPAIR" "classify ''INFO=x'' = Some INFO"
    "classify ''a=b=c'' = None"
    by (simp_all add: classify_def category_prefixes_def startswith_def str_split_def)
  from C4_classification [of init_tables "''myKey=myValue''"] c
  have "parse_header_line init_tables ''myKey=myValue'' =
      Inr (init_tables\<lparr>md_keypairs :=
        df_append (md_keypairs init_tables) (keypair_record ''myKey=myValue'')\<rparr>)"
    by blast
  then have "parse_header_line init_tables ''myKey=myValue'' =
       Inr (init_tables\<lparr>md_keypairs :=
              \<lparr>columns = [''Name'', ''Value''],
                 rows = [[(''Name'', Some ''myKey''), (''Value'', Some ''myValue'')]]\<rparr>\<rparr>)"
    by (simp add: keypair_record_def init_tables_def DataFrame_def df_append_def)
  with c o show ?thesis by blast
qed

text \<open>
  C5. When the header splits into lines \<open>pre\<close> that all begin with \<open>##\<close>, a line
  \<open>l\<close> that begins with \<open>##\<close> and is, once stripped, either of no category or of
  category \<open>PEDIGREE\<close>, and lines \<open>post\<close>, then \<open>__init__\<close> ends with an exception and
  no workbook is written; and when the lines of \<open>pre\<close> are parsed without an
  exception, the exception is the one of \<open>l\<close>: \<open>ValueError\<close> with the line in its
  message, or \<open>NotImplementedError\<close>.
\<close>

theorem C5_malformed_or_pedigree_aborts:
  assumes split: "str_split [newline] raw_header = pre @ l # post"
    and pre: "list_all (\<lambda>x. take 2 x = ''##'') pre"
    and l: "take 2 l = ''##''"
    and bad: "classify (str_strip ''##'' l) = None \<or> classify (str_strip ''##'' l) = Some PEDIGREE"
  shows "(\<exists>e. Vcf2Excel_init raw_header = Inl e)
       \<and> (\<forall>self'. parse_lines init_tables pre = Inr self' \<longrightarrow>
            parse_headers init_tables raw_header =
              Inl (if classify (str_strip ''##'' l) = None
                   then ValueError (''Invalid header line: '' @ str_strip ''##'' l)
                   else NotImplementedError))"
proof -
  let ?line = "str_strip ''##'' l"
  let ?err = "if classify ?line = None then ValueError (''Invalid header line: '' @ ?line)
              else NotImplementedError"
  have h: "parse_header_line self' ?line = Inl ?err" for self'
    using bad by (auto simp: parse_header_line_handle handle_line_def)
  have step: "parse_lines self' (l # post) = Inl ?err" for self'
    using l h by simp
  have all: "parse_headers init_tables raw_header =
      (case parse_lines init_tables pre of Inl e \<Rightarrow> Inl e | Inr self' \<Rightarrow> Inl ?err)"
    unfolding parse_headers_def split parse_lines_append [OF pre] step ..
  show ?thesis
  proof (cases "parse_lines init_tables pre")
    case (Inl e)
    with all show ?thesis by (simp add: Vcf2Excel_init_def)
  next
    case (Inr t)
    with all show ?thesis by (simp add: Vcf2Excel_init_def)
  qed
qed

theorem C5_witness:
  "str_split [newline] bogus_header = [''##fileformat=VCFv4.2''] @ ''##BOGUS stuff here'' # [''##a=b'']
   \<and> list_all (\<lambda>x. take 2 x = ''##'') [''##fileformat=VCFv4.2'']
   \<and> take 2 ''##BOGUS stuff here'' = ''##''
   \<and> classify (str_strip ''##'' ''##BOGUS stuff here'') = None
   \<and> Vcf2Excel_init bogus_header = Inl (ValueError ''Invalid header line: BOGUS stuff here'')"
proof -
  have s: "str_split [newline] bogus_header = [''##fileformat=VCFv4.2''] @ ''##BOGUS stuff here'' # [''##a=b'']"
    by (simp add: bogus_header_def str_split_def)
  have p: "list_all (\<lambda>x. take 2 x = ''##'') [''##fileformat=VCFv4.2'']"
    by simp
  have l: "take 2 ''##BOGUS stuff here'' = ''##''"
    by simp
  have st: "str_strip ''##'' ''##BOGUS stuff here'' = ''BOGUS stuff here''"
    by (simp add: str_strip_def)
  have c: "classify (str_strip ''##'' ''##BOGUS stuff here'') = None"
    unfolding st by (simp add: classify_def category_prefixes_def startswith_def str_split_def)
  have ok: "parse_lines init_tables [''##fileformat=VCFv4.2''] =
     Inr (init_tables\<lparr>md_keypairs :=
              \<lparr>columns = [''Name'', ''Value''],
                 rows = [[(''Name'', Some ''fileformat''), (''Value'', Some ''VCFv4.2'')]]\<rparr>\<rparr>)"
    by (simp add: str_split_def str_strip_def parse_header_line_def startswith_def
        parse_keypair_def init_tables_def DataFrame_def df_append_def)
  from C5_malformed_or_pedigree_aborts [OF s p l disjI1 [OF c]] ok
  have "parse_headers init_tables bogus_header = Inl (ValueError (''Invalid header line: '' @ str_strip ''##'' ''##BOGUS stuff here''))"
    using c by simp
  then have "Vcf2Excel_init bogus_header = Inl (ValueError ''Invalid header line: BOGUS stuff here'')"
    by (simp add: Vcf2Excel_init_def st)
  with s p l c show ?thesis by blast
qed

text \<open>
  C6 (the program does otherwise). A line can be parsed without an exception and
  still give a record in which a field of the line is absent or has another value
  than on the line. For \<open>INFO=<ID=X,Source="a=<b",Description="d">\<close> the line is cut
  at the second \<open>=<\<close>: \<open>Source\<close> gets the empty string and \<open>Description\<close>, which is
  on the line, gets \<open>np.nan\<close>. For \<open>INFO=<ID=X,Number=1>\<close> followed by a blank,
  \<open>[:-1]\<close> removes the blank and not the bracket: \<open>Number\<close> gets \<open>1>\<close>.
\<close>

theorem C6_present_field_lost_or_changed:
  "multi_key_parse quoted_bracket_line
       [''ID'', ''Number'', ''Type'', ''Description'', ''Source'', ''Version''] =
     Inr [(''ID'', Some ''X''), (''Number'', None), (''Type'', None), (''Description'', None),
          (''Source'', Some ''''), (''Version'', None)]
   \<and> multi_key_parse trailing_blank_line
         [''ID'', ''Number'', ''Type'', ''Description'', ''Source'', ''Version''] =
       Inr [(''ID'', Some ''X''), (''Number'', Some ''1>''), (''Type'', None),
            (''Description'', None), (''Source'', None), (''Version'', None)]"
  by code_simp

text \<open>
  C7 (the program does otherwise). The record of the line
  \<open>INFO=<ID=X,Description="a=b">\<close> has \<open>Description\<close> cut to \<open>"a\<close>; written back it
  is \<open>INFO=<ID=X,Description="a>\<close>, where the quote no longer closes, the letter
  \<open>a\<close> is a token with no \<open>=\<close>, and parsing it again raises \<open>IndexError\<close> instead
  of giving the record back.
\<close>

theorem C7_round_trip_fails_on_quoted_equals:
  "multi_key_parse quoted_equals_line
       [''ID'', ''Number'', ''Type'', ''Description'', ''Source'', ''Version''] =
     Inr [(''ID'', Some ''X''), (''Number'', None), (''Type'', None),
          (''Description'', Some (dquote # ''a'')), (''Source'', None), (''Version'', None)]
   \<and> reserialize ''INFO''
         [(''ID'', Some ''X''), (''Number'', None), (''Type'', None),
          (''Description'', Some (dquote # ''a'')), (''Source'', None), (''Version'', None)] =
       ''INFO=<ID=X,Description='' @ [dquote] @ ''a>''
   \<and> multi_key_parse (''INFO=<ID=X,Description='' @ [dquote] @ ''a>'')
         [''ID'', ''Number'', ''Type'', ''Description'', ''Source'', ''Version''] =
       Inl IndexError"
  by code_simp




text \<open>
  C9 (the program does otherwise). \<open>line.strip("##")\<close> removes every \<open>#\<close> at both
  ends of the line, not the two-character marker alone: the header line
  \<open>##key=value#\<close> gives the record \<open>(key, value)\<close>, its last \<open>#\<close> lost, and
  \<open>###key=value\<close> gives the name \<open>key\<close>, not \<open>#key\<close>.
\<close>

theorem C9_strip_removes_every_hash:
  "str_strip ''##'' ''###key=value#'' = ''key=value''
   \<and> parse_headers init_tables ''##key=value#'' =
       Inr (init_tables\<lparr>md_keypairs :=
              \<lparr>columns = [''Name'', ''Value''],
                 rows = [[(''Name'', Some ''key''), (''Value'', Some ''value'')]]\<rparr>\<rparr>)"
  by (simp add: parse_headers_def str_split_def str_strip_def parse_header_line_def
      startswith_def parse_keypair_def init_tables_def DataFrame_def df_append_def)

text \<open>
  C10. A line that begins with one of \<open>INFO\<close>, \<open>FILTER\<close>, \<open>FORMAT\<close>, \<open>ALT\<close>,
  \<open>contig\<close>, \<open>SAMPLE\<close> and has no \<open>=<\<close> in it raises \<open>IndexError\<close>: no record is
  made, and the line does not reach the test for a key/value pair, however many
  \<open>=\<close> it has.
\<close>

theorem C10_prefixed_line_without_bracket_fails:
  assumes "startswith line ''INFO'' \<or> startswith line ''FILTER'' \<or> startswith line ''FORMAT''
           \<or> startswith line ''ALT'' \<or> startswith line ''contig'' \<or> startswith line ''SAMPLE''"
    and "\<not> str_contains line ''=<''"
  shows "parse_header_line self line = Inl IndexError"
proof -
  have "str_split ''=<'' line = [line]"
    using assms(2) by (simp add: str_split_def split_from_absent)
  then have "multi_key_parse line flds = Inl IndexError" for flds
    by (simp add: multi_key_parse_def)
  with assms(1) show ?thesis
    by (auto simp: parse_header_line_def)
qed

theorem C10_witness:
  "startswith ''INFOLINE=value'' ''INFO'' \<and> \<not> str_contains ''INFOLINE=value'' ''=<''
   \<and> length (str_split ''='' ''INFOLINE=value'') = 2
   \<and> parse_header_line init_tables ''INFOLINE=value'' = Inl IndexError"
  using C10_prefixed_line_without_bracket_fails [of "''INFOLINE=value''" init_tables]
  by (simp add: startswith_def str_split_def)

end
